theory Spec2Isabelle
  imports Main "HOL-Library.Word" "HOL-Library.Char_ord" "HOL-Library.List_Lexorder"
begin

unbundle bit_operations_syntax

section \<open>The Watch class of inotify-example.cpp\<close>

text \<open>
  The struct \<open>wd_elem\<close> holds a parent watch descriptor and a name. Watch descriptors
  are C \<open>int\<close>s that the program only stores and compares, never computes with, so they
  are modelled as \<open>int\<close>.
\<close>

record wd_elem =
  pd :: int
  name :: string

text \<open>
  \<open>wd_elem::operator()\<close>, the comparator of the reverse map:
  \<open>l.pd < r.pd ? true : l.pd == r.pd && l.name < r.name ? true : false\<close>.
\<close>

definition wd_elem_less :: "wd_elem \<Rightarrow> wd_elem \<Rightarrow> bool" where
  "wd_elem_less l r =
     (if pd l < pd r then True else if pd l = pd r \<and> name l < name r then True else False)"

text \<open>
  The class has two \<open>std::map\<close> members: \<open>watch\<close> from a descriptor to its element,
  and \<open>rwatch\<close> from an element to its descriptor.
\<close>

record Watch =
  watch :: "int \<rightharpoonup> wd_elem"
  rwatch :: "wd_elem \<rightharpoonup> int"

text \<open>A default-constructed \<open>Watch\<close>: both maps empty.\<close>

definition empty_Watch :: Watch where
  "empty_Watch = \<lparr>watch = Map.empty, rwatch = Map.empty\<rparr>"

text \<open>
  \<open>std::map::operator[]\<close> inserts a value-initialised mapped value when the key is
  absent and then returns a reference to it: \<open>wd_elem()\<close> is \<open>{0, ""}\<close> and \<open>int()\<close>
  is \<open>0\<close>. Both lookups therefore return the value together with the updated object.
\<close>

definition default_elem :: wd_elem where
  "default_elem = \<lparr>pd = 0, name = ''''\<rparr>"

definition watch_at :: "Watch \<Rightarrow> int \<Rightarrow> wd_elem \<times> Watch" where
  "watch_at W w =
     (case watch W w of
        Some e \<Rightarrow> (e, W)
      | None \<Rightarrow> (default_elem, W\<lparr>watch := (watch W)(w \<mapsto> default_elem)\<rparr>))"

definition rwatch_at :: "Watch \<Rightarrow> wd_elem \<Rightarrow> int \<times> Watch" where
  "rwatch_at W e =
     (case rwatch W e of
        Some w \<Rightarrow> (w, W)
      | None \<Rightarrow> (0, W\<lparr>rwatch := (rwatch W)(e \<mapsto> 0)\<rparr>))"

text \<open>
  \<open>void insert (int pd, const string &name, int wd)\<close>. The parameters \<open>pd\<close>, \<open>name\<close> and
  \<open>wd\<close> of the member functions are written \<open>p\<close>, \<open>n\<close> and \<open>w\<close>, the first two names being
  taken by the fields of \<open>wd_elem\<close>.
\<close>

definition insert_wd :: "Watch \<Rightarrow> int \<Rightarrow> string \<Rightarrow> int \<Rightarrow> Watch" where
  "insert_wd W p n w =
     (let elem = \<lparr>pd = p, name = n\<rparr>;
          W1 = W\<lparr>watch := (watch W)(w \<mapsto> elem)\<rparr>
      in W1\<lparr>rwatch := (rwatch W1)(elem \<mapsto> w)\<rparr>)"

text \<open>
  \<open>string erase (int pd, const string &name, int *wd)\<close>: the result is the returned
  string, the value stored through \<open>wd\<close>, and the updated object.
\<close>

definition erase :: "Watch \<Rightarrow> int \<Rightarrow> string \<Rightarrow> string \<times> int \<times> Watch" where
  "erase W p n =
     (let pelem = \<lparr>pd = p, name = n\<rparr>;
          (w, W1) = rwatch_at W pelem;
          W2 = W1\<lparr>rwatch := (rwatch W1)(pelem := None)\<rparr>;
          (elem, W3) = watch_at W2 w;
          dir = name elem;
          W4 = W3\<lparr>watch := (watch W3)(w := None)\<rparr>
      in (dir, w, W4))"

text \<open>
  \<open>string get (int wd)\<close> recurses up the parent descriptors. The recursion has no
  bound, so the function is partial: \<open>None\<close> stands for a call that never returns.
  The reference \<open>elem\<close> stays valid across the recursive call (insertions do not
  invalidate references into a \<open>std::map\<close>) and the call never changes an existing
  entry, so \<open>elem.name\<close> is the value bound before the call.
\<close>

partial_function (option) get :: "Watch \<Rightarrow> int \<Rightarrow> (string \<times> Watch) option" where
  "get W w =
     (case watch_at W w of
        (elem, W1) \<Rightarrow>
          if pd elem = - 1 then Some (name elem, W1)
          else Option.bind (get W1 (pd elem))
                 (\<lambda>(s, W2). Some (s @ ''/'' @ name elem, W2)))"

text \<open>\<open>int get (int pd, string name)\<close>, the second overload.\<close>

definition get_pd_name :: "Watch \<Rightarrow> int \<Rightarrow> string \<Rightarrow> int \<times> Watch" where
  "get_pd_name W p n = (let elem = \<lparr>pd = p, name = n\<rparr> in rwatch_at W elem)"

text \<open>\<open>void stats()\<close> prints \<open>watch.size()\<close> and \<open>rwatch.size()\<close>.\<close>

definition stats :: "Watch \<Rightarrow> nat \<times> nat" where
  "stats W = (card (dom (watch W)), card (dom (rwatch W)))"

text \<open>
  \<open>void cleanup (int fd)\<close>:
  \<^verbatim>\<open>for (wi = watch.begin(); wi != watch.end(); wi++) { inotify_rm_watch (fd, wi->first); watch.erase (wi); }\<close>
  followed by \<open>rwatch.clear()\<close>. \<open>std::map::erase(iterator)\<close> invalidates the iterator it
  is given, and the loop header then increments that iterator. With an empty map the body
  never runs; with any entry the first pass through the body ends in the increment of an
  invalidated iterator, which the language leaves undefined. The result is the list of
  descriptors handed to \<open>inotify_rm_watch\<close> and the updated object, or the fault.
\<close>

datatype fault = Invalidated_iterator

definition cleanup :: "Watch \<Rightarrow> fault + (int list \<times> Watch)" where
  "cleanup W =
     (if dom (watch W) = {} then Inr ([], W\<lparr>rwatch := Map.empty\<rparr>)
      else Inl Invalidated_iterator)"

section \<open>Parent chains\<close>

text \<open>
  The parent that \<open>get\<close> reads for a descriptor: \<open>watch[wd].pd\<close>, which is the stored
  parent of a present descriptor and 0, the parent of the default-inserted element, for
  an absent one.
\<close>

definition parent_of :: "(int \<rightharpoonup> wd_elem) \<Rightarrow> int \<Rightarrow> int" where
  "parent_of m w = (case m w of Some e \<Rightarrow> pd e | None \<Rightarrow> 0)"

text \<open>
  The full path of a descriptor whose chain of present entries ends in a root entry
  (parent \<open>-1\<close>): the root's name, then each name down the chain, joined with \<open>/\<close>.
\<close>

inductive resolves :: "(int \<rightharpoonup> wd_elem) \<Rightarrow> int \<Rightarrow> string \<Rightarrow> bool" for m where
  root: "m w = Some e \<Longrightarrow> pd e = - 1 \<Longrightarrow> resolves m w (name e)"
| child: "m w = Some e \<Longrightarrow> pd e \<noteq> - 1 \<Longrightarrow> resolves m (pd e) s
            \<Longrightarrow> resolves m w (s @ ''/'' @ name e)"

text \<open>An entry is live when both maps hold it.\<close>

definition live :: "Watch \<Rightarrow> int \<Rightarrow> string \<Rightarrow> int \<Rightarrow> bool" where
  "live W p n w =
     (watch W w = Some \<lparr>pd = p, name = n\<rparr> \<and> rwatch W \<lparr>pd = p, name = n\<rparr> = Some w)"

section \<open>The event loop of \<open>main\<close>\<close>

text \<open>
  The event flags the program tests, with the values of the Linux header
  \<open>sys/inotify.h\<close> that it includes.
\<close>

definition IN_CREATE :: "32 word" where "IN_CREATE = 0x00000100"
definition IN_DELETE :: "32 word" where "IN_DELETE = 0x00000200"
definition IN_Q_OVERFLOW :: "32 word" where "IN_Q_OVERFLOW = 0x00004000"
definition IN_IGNORED :: "32 word" where "IN_IGNORED = 0x00008000"
definition IN_ISDIR :: "32 word" where "IN_ISDIR = 0x40000000"

text \<open>
  \<open>struct inotify_event\<close> as the loop reads it: the descriptor \<open>wd\<close>, the \<open>mask\<close>, the
  length \<open>len\<close> of the name field and the \<open>name\<close>. The event buffer is modelled as the list
  of the events that the \<open>for\<close> loop decodes from it.
\<close>

record inotify_event =
  ev_wd :: int
  ev_mask :: "32 word"
  ev_len :: "32 word"
  ev_name :: string

text \<open>
  What the program does to its surroundings: a line printed by \<open>printf\<close> (without its
  final newline), a \<open>perror\<close>, and the calls of \<open>inotify_add_watch\<close> and
  \<open>inotify_rm_watch\<close> with the path or descriptor they are given.
\<close>

datatype effect = Printf string | Perror string | Add_watch string | Rm_watch int

text \<open>
  The local variables of \<open>main\<close> that the loop uses (the \<open>Watch\<close> object is \<open>watch_v\<close>),
  and the effects so far. The two counters are C \<open>int\<close>s that are only incremented and
  decremented by one per event; they are modelled as \<open>int\<close>, which agrees with the program
  as long as fewer than \<open>2^31\<close> events are counted.
\<close>

record main_vars =
  watch_v :: Watch
  current_dir :: string
  new_dir :: string
  total_file_events :: int
  total_dir_events :: int
  wd :: int
  out :: "effect list"

definition emit :: "effect \<Rightarrow> main_vars \<Rightarrow> main_vars" where
  "emit x M = M\<lparr>out := out M @ [x]\<rparr>"

text \<open>
  The state on entry to the loop: \<open>r\<close> is what \<open>inotify_add_watch (fd, "./tmp", ...)\<close>
  returned, inserted as the root with parent \<open>-1\<close>.
\<close>

definition startup :: "int \<Rightarrow> main_vars" where
  "startup r =
     (let M = \<lparr>watch_v = empty_Watch, current_dir = '''', new_dir = '''',
               total_file_events = 0, total_dir_events = 0, wd = r,
               out = [Add_watch ''./tmp'']\<rparr>
      in M\<lparr>watch_v := insert_wd (watch_v M) (- 1) ''./tmp'' (wd M)\<rparr>)"

text \<open>
  The body of the \<open>for\<close> loop for one event. \<open>reply\<close> is the value that
  \<open>inotify_add_watch\<close> returns if the event makes the program call it. A result \<open>None\<close>
  means that a call of \<open>get\<close> made for the event never returns. \<open>on_create\<close> is the
  branch \<open>if (event->mask & IN_CREATE)\<close>, \<open>on_delete\<close> the branch
  \<open>else if (event->mask & IN_DELETE)\<close>.
\<close>

definition on_create :: "int \<Rightarrow> inotify_event \<Rightarrow> main_vars \<Rightarrow> main_vars option" where
  "on_create reply ev M =
     (case get (watch_v M) (ev_wd ev) of
        None \<Rightarrow> None
      | Some (dir, W) \<Rightarrow>
          (let M1 = M\<lparr>watch_v := W, current_dir := dir\<rparr>
           in if ev_mask ev AND IN_ISDIR \<noteq> 0 then
                (let M2 = M1\<lparr>new_dir := current_dir M1 @ ''/'' @ ev_name ev\<rparr>;
                     M3 = (emit (Add_watch (new_dir M2)) M2)\<lparr>wd := reply\<rparr>;
                     M4 = M3\<lparr>watch_v := insert_wd (watch_v M3) (ev_wd ev) (ev_name ev) (wd M3)\<rparr>;
                     M5 = M4\<lparr>total_dir_events := total_dir_events M4 + 1\<rparr>
                 in Some (emit (Printf (''New directory '' @ new_dir M5 @ '' created.'')) M5))
              else
                (let M2 = M1\<lparr>total_file_events := total_file_events M1 + 1\<rparr>
                 in Some (emit (Printf (''New file '' @ current_dir M2 @ ''/'' @ ev_name ev
                                          @ '' created.'')) M2))))"

definition on_delete :: "inotify_event \<Rightarrow> main_vars \<Rightarrow> main_vars option" where
  "on_delete ev M =
     (if ev_mask ev AND IN_ISDIR \<noteq> 0 then
        (case erase (watch_v M) (ev_wd ev) (ev_name ev) of
           (dir, w, W) \<Rightarrow>
             (let M1 = M\<lparr>watch_v := W, wd := w, new_dir := dir\<rparr>;
                  M2 = emit (Rm_watch (wd M1)) M1;
                  M3 = M2\<lparr>total_dir_events := total_dir_events M2 - 1\<rparr>
              in Some (emit (Printf (''Directory '' @ new_dir M3 @ '' deleted.'')) M3)))
      else
        (case get (watch_v M) (ev_wd ev) of
           None \<Rightarrow> None
         | Some (dir, W) \<Rightarrow>
             (let M1 = M\<lparr>watch_v := W, current_dir := dir\<rparr>;
                  M2 = M1\<lparr>total_file_events := total_file_events M1 - 1\<rparr>
              in Some (emit (Printf (''File '' @ current_dir M2 @ ''/'' @ ev_name ev
                                       @ '' deleted.'')) M2))))"

definition process_event :: "int \<Rightarrow> inotify_event \<Rightarrow> main_vars \<Rightarrow> main_vars option" where
  "process_event reply ev M =
     (let M1 = (if ev_wd ev = - 1 then emit (Printf ''Overflow'') M else M);
          M2 = (if ev_mask ev AND IN_Q_OVERFLOW \<noteq> 0 then emit (Printf ''Overflow'') M1 else M1)
      in if ev_len ev \<noteq> 0 then
           (let M3 = (if ev_mask ev AND IN_IGNORED \<noteq> 0 then emit (Printf ''IN_IGNORED'') M2 else M2)
            in if ev_mask ev AND IN_CREATE \<noteq> 0 then on_create reply ev M3
               else if ev_mask ev AND IN_DELETE \<noteq> 0 then on_delete ev M3
               else Some M3)
         else Some M2)"

fun process_events :: "(int \<times> inotify_event) list \<Rightarrow> main_vars \<Rightarrow> main_vars option" where
  "process_events [] M = Some M"
| "process_events ((reply, ev) # es) M =
     (case process_event reply ev M of None \<Rightarrow> None | Some M' \<Rightarrow> process_events es M')"

text \<open>
  One turn of \<open>while (run)\<close>: the loop finds \<open>run\<close> false and is left, or it finds it
  true and then \<open>read\<close> fails (\<open>perror\<close>, no event is processed) or delivers events.
  When nothing more is observed the program is waiting in \<open>select\<close>.
\<close>

datatype observation = Run_false | Read_failed | Events "(int \<times> inotify_event) list"

datatype outcome = Left_loop main_vars | Waiting main_vars

fun main_loop :: "observation list \<Rightarrow> main_vars \<Rightarrow> outcome option" where
  "main_loop [] M = Some (Waiting M)"
| "main_loop (Run_false # obs) M = Some (Left_loop M)"
| "main_loop (Read_failed # obs) M = main_loop obs (emit (Perror ''read'') M)"
| "main_loop (Events es # obs) M =
     (case process_events es M of None \<Rightarrow> None | Some M' \<Rightarrow> main_loop obs M')"


text \<open>The state after the three reporting checks that precede the dispatch.\<close>

definition announced :: "inotify_event \<Rightarrow> main_vars \<Rightarrow> main_vars" where
  "announced ev M =
     (let M1 = (if ev_wd ev = - 1 then emit (Printf ''Overflow'') M else M);
          M2 = (if ev_mask ev AND IN_Q_OVERFLOW \<noteq> 0 then emit (Printf ''Overflow'') M1 else M1)
      in if ev_mask ev AND IN_IGNORED \<noteq> 0 then emit (Printf ''IN_IGNORED'') M2 else M2)"

section \<open>Sequences of registry operations\<close>

text \<open>
  A caller drives the registry through \<open>insert\<close> and \<open>erase\<close>. \<open>states_after\<close> lists
  the object after each operation of a sequence.
\<close>

datatype op = Insert int string int | Remove int string

fun apply_op :: "Watch \<Rightarrow> op \<Rightarrow> Watch" where
  "apply_op W (Insert p n w) = insert_wd W p n w"
| "apply_op W (Remove p n) = snd (snd (erase W p n))"

fun states_after :: "Watch \<Rightarrow> op list \<Rightarrow> Watch list" where
  "states_after W [] = []"
| "states_after W (x # xs) = apply_op W x # states_after (apply_op W x) xs"

text \<open>
  The calls a well-behaved caller makes: \<open>insert\<close> with a descriptor and a
  (parent, name) pair that are both absent, and \<open>erase\<close> of a pair that is present (or of
  any pair while descriptor 0, the default that \<open>rwatch[pelem]\<close> yields, is absent).
\<close>

fun op_ok :: "Watch \<Rightarrow> op \<Rightarrow> bool" where
  "op_ok W (Insert p n w) = (watch W w = None \<and> rwatch W \<lparr>pd = p, name = n\<rparr> = None)"
| "op_ok W (Remove p n) = (rwatch W \<lparr>pd = p, name = n\<rparr> \<noteq> None \<or> watch W 0 = None)"

fun ops_ok :: "Watch \<Rightarrow> op list \<Rightarrow> bool" where
  "ops_ok W [] = True"
| "ops_ok W (x # xs) = (op_ok W x \<and> ops_ok (apply_op W x) xs)"

text \<open>The reverse map is the exact inverse of the forward map.\<close>

definition inverse_maps :: "Watch \<Rightarrow> bool" where
  "inverse_maps W = (\<forall>w e. watch W w = Some e \<longleftrightarrow> rwatch W e = Some w)"

section \<open>Basic facts\<close>

lemma wd_elem_equiv: "(\<not> wd_elem_less l r \<and> \<not> wd_elem_less r l) \<longleftrightarrow> l = r"
  by (cases l; cases r) (auto simp: wd_elem_less_def)

text \<open>What \<open>erase\<close> returns and leaves behind, in closed form.\<close>

lemma erase_wd: "fst (snd (erase W p n)) = (case rwatch W \<lparr>pd = p, name = n\<rparr> of Some w \<Rightarrow> w | None \<Rightarrow> 0)"
  by (simp add: erase_def rwatch_at_def watch_at_def Let_def split: option.splits prod.splits)

lemma erase_rwatch: "rwatch (snd (snd (erase W p n))) = (rwatch W)(\<lparr>pd = p, name = n\<rparr> := None)"
  by (auto simp add: erase_def rwatch_at_def watch_at_def Let_def split: option.splits prod.splits)

lemma erase_watch: "watch (snd (snd (erase W p n))) = (watch W)(fst (snd (erase W p n)) := None)"
  by (auto simp add: erase_def rwatch_at_def watch_at_def Let_def split: option.splits prod.splits)

lemma erase_name: "fst (erase W p n) = (case watch W (fst (snd (erase W p n))) of Some e \<Rightarrow> name e | None \<Rightarrow> '''')"
  by (auto simp add: erase_def rwatch_at_def watch_at_def default_elem_def Let_def split: option.splits prod.splits)

section \<open>Facts about the recursive walk\<close>

lemma watch_at_pd: "pd (fst (watch_at W w)) = parent_of (watch W) w"
  by (simp add: watch_at_def parent_of_def default_elem_def split: option.splits)

lemma watch_at_parent_of: "parent_of (watch (snd (watch_at W w))) = parent_of (watch W)"
  by (rule ext) (simp add: watch_at_def parent_of_def default_elem_def split: option.splits)

lemma watch_at_live: "watch W w = Some e \<Longrightarrow> watch_at W w = (e, W)"
  by (simp add: watch_at_def)

lemma watch_at_absent: "watch W w = None \<Longrightarrow> watch_at W w = (default_elem, W\<lparr>watch := (watch W)(w \<mapsto> default_elem)\<rparr>)"
  by (simp add: watch_at_def)

lemma get_root: "watch W w = Some e \<Longrightarrow> pd e = - 1 \<Longrightarrow> get W w = Some (name e, W)"
  by (subst get.simps) (simp add: watch_at_live)

lemma get_child:
  "watch W w = Some e \<Longrightarrow> pd e \<noteq> - 1 \<Longrightarrow> get W (pd e) = Some (s, W') \<Longrightarrow> get W w = Some (s @ ''/'' @ name e, W')"
  by (subst get.simps) (simp add: watch_at_live)

lemma get_absent:
  "watch W w = None \<Longrightarrow>
   get W w = Option.bind (get (W\<lparr>watch := (watch W)(w \<mapsto> default_elem)\<rparr>) 0) (\<lambda>(s, W2). Some (s @ ''/'', W2))"
  by (subst get.simps) (simp add: watch_at_absent default_elem_def)

lemma resolves_get: "resolves (watch W) w s \<Longrightarrow> get W w = Some (s, W)"
  by (induction rule: resolves.induct) (simp_all add: get_root get_child)

lemma get_step:
  "get W w = (if parent_of (watch W) w = - 1 then Some (name (fst (watch_at W w)), snd (watch_at W w))
     else Option.bind (get (snd (watch_at W w)) (parent_of (watch W) w)) (\<lambda>(s, W2). Some (s @ ''/'' @ name (fst (watch_at W w)), W2)))"
  by (subst get.simps) (simp add: watch_at_pd [symmetric] split: prod.splits)

lemma reaches_get:
  "parent_of (watch W) ((parent_of (watch W) ^^ k) w) = - 1 \<Longrightarrow> \<exists>r. get W w = Some r"
proof (induction k arbitrary: W w)
  case 0
  then show ?case by (simp add: get_step)
next
  case (Suc k)
  show ?case
  proof (cases "parent_of (watch W) w = - 1")
    case True
    then show ?thesis by (simp add: get_step)
  next
    case False
    let ?W1 = "snd (watch_at W w)"
    from Suc.prems have "parent_of (watch ?W1) ((parent_of (watch ?W1) ^^ k) (parent_of (watch W) w)) = - 1"
      by (simp add: watch_at_parent_of funpow_swap1)
    from Suc.IH [OF this] obtain r where "get ?W1 (parent_of (watch W) w) = Some r" by blast
    with False show ?thesis by (subst get_step) (simp split: prod.splits)
  qed
qed

lemma get_reaches:
  assumes "get W w = Some r"
  shows "\<exists>k. parent_of (watch W) ((parent_of (watch W) ^^ k) w) = - 1"
proof (rule get.raw_induct [where P = "\<lambda>W w r. \<exists>k. parent_of (watch W) ((parent_of (watch W) ^^ k) w) = - 1", OF _ assms])
  fix get W w and r :: "string \<times> Watch"
  assume IH: "\<And>W w r. get W w = Some r \<Longrightarrow> \<exists>k. parent_of (watch W) ((parent_of (watch W) ^^ k) w) = - 1"
    and body: "(case watch_at W w of
        (elem, W1) \<Rightarrow>
          if pd elem = - 1 then Some (name elem, W1)
          else Option.bind (get W1 (pd elem))
                 (\<lambda>(s, W2). Some (s @ ''/'' @ name elem, W2))) = Some r"
  show "\<exists>k. parent_of (watch W) ((parent_of (watch W) ^^ k) w) = - 1"
  proof (cases "parent_of (watch W) w = - 1")
    case True
    then have "parent_of (watch W) ((parent_of (watch W) ^^ 0) w) = - 1" by simp
    then show ?thesis by blast
  next
    case False
    let ?W1 = "snd (watch_at W w)"
    from body False obtain r' where "get ?W1 (parent_of (watch W) w) = Some r'"
      by (auto simp: watch_at_pd [symmetric] split: prod.splits bind_splits)
    from IH [OF this] obtain k where "parent_of (watch W) ((parent_of (watch W) ^^ k) (parent_of (watch W) w)) = - 1"
      by (auto simp: watch_at_parent_of)
    then have "parent_of (watch W) ((parent_of (watch W) ^^ Suc k) w) = - 1"
      by (simp add: funpow_swap1)
    then show ?thesis by blast
  qed
qed

lemma get_parent_of:
  assumes "get W w = Some r"
  shows "parent_of (watch (snd r)) = parent_of (watch W)"
proof (rule get.raw_induct [where P = "\<lambda>W w r. parent_of (watch (snd r)) = parent_of (watch W)", OF _ assms])
  fix get W w and r :: "string \<times> Watch"
  assume IH: "\<And>W w r. get W w = Some r \<Longrightarrow> parent_of (watch (snd r)) = parent_of (watch W)"
    and body: "(case watch_at W w of
        (elem, W1) \<Rightarrow>
          if pd elem = - 1 then Some (name elem, W1)
          else Option.bind (get W1 (pd elem))
                 (\<lambda>(s, W2). Some (s @ ''/'' @ name elem, W2))) = Some r"
  show "parent_of (watch (snd r)) = parent_of (watch W)"
  proof (cases "parent_of (watch W) w = - 1")
    case True
    with body have "snd r = snd (watch_at W w)"
      by (auto simp: watch_at_pd [symmetric] split: prod.splits)
    then show ?thesis by (simp add: watch_at_parent_of)
  next
    case False
    let ?W1 = "snd (watch_at W w)"
    from body False obtain s' where "get ?W1 (parent_of (watch W) w) = Some (s', snd r)"
      by (auto simp: watch_at_pd [symmetric] split: prod.splits bind_splits)
    from IH [OF this] show ?thesis by (simp add: watch_at_parent_of)
  qed
qed

text \<open>
  The walk only adds entries for absent descriptors: it never touches the reverse map or
  an entry that is present, which is why \<open>elem.name\<close> is the same before and after the
  recursive call.
\<close>

lemma watch_at_keeps:
  "rwatch (snd (watch_at W w)) = rwatch W"
  "watch W v = Some e \<Longrightarrow> watch (snd (watch_at W w)) v = Some e"
  by (auto simp: watch_at_def split: option.splits)

lemma get_keeps_entries:
  assumes "get W w = Some r"
  shows "rwatch (snd r) = rwatch W \<and> (\<forall>v e. watch W v = Some e \<longrightarrow> watch (snd r) v = Some e)"
proof (rule get.raw_induct [where P = "\<lambda>W w r. rwatch (snd r) = rwatch W
          \<and> (\<forall>v e. watch W v = Some e \<longrightarrow> watch (snd r) v = Some e)", OF _ assms])
  fix get W w and r :: "string \<times> Watch"
  assume IH: "\<And>W w r. get W w = Some r \<Longrightarrow> rwatch (snd r) = rwatch W
          \<and> (\<forall>v e. watch W v = Some e \<longrightarrow> watch (snd r) v = Some e)"
    and body: "(case watch_at W w of
        (elem, W1) \<Rightarrow>
          if pd elem = - 1 then Some (name elem, W1)
          else Option.bind (get W1 (pd elem))
                 (\<lambda>(s, W2). Some (s @ ''/'' @ name elem, W2))) = Some r"
  let ?W1 = "snd (watch_at W w)"
  show "rwatch (snd r) = rwatch W \<and> (\<forall>v e. watch W v = Some e \<longrightarrow> watch (snd r) v = Some e)"
  proof (cases "pd (fst (watch_at W w)) = - 1")
    case True
    with body have "snd r = ?W1" by (auto split: prod.splits)
    then show ?thesis by (simp add: watch_at_keeps)
  next
    case False
    with body obtain s' where "get ?W1 (pd (fst (watch_at W w))) = Some (s', snd r)"
      by (auto split: prod.splits bind_splits)
    from IH [OF this] show ?thesis by (simp add: watch_at_keeps)
  qed
qed


section \<open>The two maps stay inverse to each other\<close>

lemma inverse_maps_card:
  assumes "inverse_maps W"
  shows "card (dom (watch W)) = card (dom (rwatch W))"
proof -
  from assms have iff: "\<And>w e. watch W w = Some e \<longleftrightarrow> rwatch W e = Some w"
    by (simp add: inverse_maps_def)
  have inj: "inj_on (\<lambda>w. the (watch W w)) (dom (watch W))"
  proof (rule inj_onI)
    fix x y
    assume "x \<in> dom (watch W)" "y \<in> dom (watch W)" and eq: "the (watch W x) = the (watch W y)"
    then obtain a b where a: "watch W x = Some a" and b: "watch W y = Some b" by blast
    with eq have "a = b" by simp
    with a b have "rwatch W a = Some x" "rwatch W a = Some y" by (simp_all add: iff)
    then show "x = y" by simp
  qed
  have img: "(\<lambda>w. the (watch W w)) ` dom (watch W) = dom (rwatch W)"
  proof (intro set_eqI iffI)
    fix e assume "e \<in> (\<lambda>w. the (watch W w)) ` dom (watch W)"
    then obtain w a where "watch W w = Some a" "e = a" by force
    then have "rwatch W e = Some w" by (simp add: iff)
    then show "e \<in> dom (rwatch W)" by blast
  next
    fix e assume "e \<in> dom (rwatch W)"
    then obtain w where "rwatch W e = Some w" by blast
    then have "watch W w = Some e" by (simp add: iff)
    then have "w \<in> dom (watch W)" "the (watch W w) = e" by auto
    then show "e \<in> (\<lambda>w. the (watch W w)) ` dom (watch W)" by force
  qed
  have "card (dom (rwatch W)) = card ((\<lambda>w. the (watch W w)) ` dom (watch W))"
    by (simp only: img)
  also have "\<dots> = card (dom (watch W))" using inj by (rule card_image)
  finally show ?thesis by simp
qed

lemma inverse_maps_empty: "inverse_maps empty_Watch"
  by (simp add: inverse_maps_def empty_Watch_def)

lemma inverse_maps_insert:
  "inverse_maps W \<Longrightarrow> watch W w = None \<Longrightarrow> rwatch W \<lparr>pd = p, name = n\<rparr> = None \<Longrightarrow> inverse_maps (insert_wd W p n w)"
proof -
  assume inv: "inverse_maps W" and w: "watch W w = None" and e: "rwatch W \<lparr>pd = p, name = n\<rparr> = None"
  from inv have iff: "\<And>w e. watch W w = Some e \<longleftrightarrow> rwatch W e = Some w" by (simp add: inverse_maps_def)
  have 1: "rwatch W e' \<noteq> Some w" for e' using iff [of w e'] w by simp
  have 2: "watch W w' \<noteq> Some \<lparr>pd = p, name = n\<rparr>" for w' using iff [of w' "\<lparr>pd = p, name = n\<rparr>"] e by simp
  show ?thesis
    unfolding inverse_maps_def insert_wd_def Let_def
    using iff 1 2 by auto
qed

lemma inverse_maps_erase:
  assumes "inverse_maps W" and "rwatch W \<lparr>pd = p, name = n\<rparr> \<noteq> None \<or> watch W 0 = None"
  shows "inverse_maps (snd (snd (erase W p n)))"
proof -
  define e where "e = \<lparr>pd = p, name = n\<rparr>"
  define w where "w = fst (snd (erase W p n))"
  define W' where "W' = snd (snd (erase W p n))"
  from assms(1) have iff: "\<And>w e. watch W w = Some e \<longleftrightarrow> rwatch W e = Some w" by (simp add: inverse_maps_def)
  have w': "watch W' = (watch W)(w := None)" and r': "rwatch W' = (rwatch W)(e := None)"
    by (simp_all add: W'_def w_def e_def erase_watch erase_rwatch)
  have key: "watch W w = Some e' \<longleftrightarrow> e' = e \<and> rwatch W e \<noteq> None" for e'
  proof (cases "rwatch W e")
    case None
    with assms(2) have "watch W 0 = None" by (simp add: e_def)
    with None show ?thesis by (simp add: erase_wd w_def e_def)
  next
    case (Some v)
    then have "watch W v = Some e" by (simp add: iff)
    moreover from Some have "w = v" by (simp add: erase_wd w_def e_def)
    ultimately show ?thesis using Some by auto
  qed
  have "watch W' v = Some e' \<longleftrightarrow> rwatch W' e' = Some v" for v e'
  proof (cases "v = w")
    case True
    then show ?thesis using key [of e'] iff [of w e'] by (simp add: w' r')
  next
    case False
    then show ?thesis using key [of e] iff [of v e'] iff [of w e] by (auto simp: w' r')
  qed
  then show ?thesis unfolding W'_def [symmetric] inverse_maps_def by blast
qed

lemma inverse_maps_apply_op: "inverse_maps W \<Longrightarrow> op_ok W x \<Longrightarrow> inverse_maps (apply_op W x)"
  by (cases x) (auto intro: inverse_maps_insert inverse_maps_erase)

lemma inverse_maps_states_after:
  "inverse_maps W \<Longrightarrow> ops_ok W xs \<Longrightarrow> \<forall>W' \<in> set (states_after W xs). inverse_maps W'"
proof (induction xs arbitrary: W)
  case Nil
  then show ?case by simp
next
  case (Cons x xs)
  from Cons.prems have ok: "op_ok W x" and rest: "ops_ok (apply_op W x) xs" by simp_all
  have inv: "inverse_maps (apply_op W x)"
    using Cons.prems(1) ok by (rule inverse_maps_apply_op)
  from Cons.IH [OF inv rest] inv show ?case by simp
qed

text \<open>
  C1 (amended). Starting from the empty registry, for every sequence of \<open>insert\<close> and
  \<open>erase\<close> calls in which each \<open>insert\<close> supplies a descriptor and a (parent, name) pair
  that are both absent, and each \<open>erase\<close> names a present pair (or descriptor 0 is absent),
  the two sizes printed by \<open>stats\<close> are equal after each operation.
\<close>

theorem stats_equal_after_each_op:
  assumes "ops_ok empty_Watch xs"
  shows "\<forall>W \<in> set (states_after empty_Watch xs). fst (stats W) = snd (stats W)"
  using inverse_maps_states_after [OF inverse_maps_empty assms]
  by (auto simp: stats_def inverse_maps_card)

theorem stats_equal_after_each_op_witness:
  "ops_ok empty_Watch [Insert (- 1) ''./tmp'' 1, Insert 1 ''x'' 2, Remove 1 ''x'']
   \<and> list_all (\<lambda>W. fst (stats W) = snd (stats W))
        (states_after empty_Watch [Insert (- 1) ''./tmp'' 1, Insert 1 ''x'' 2, Remove 1 ''x''])"
proof -
  have h: "ops_ok empty_Watch [Insert (- 1) ''./tmp'' 1, Insert 1 ''x'' 2, Remove 1 ''x'']"
    by (simp add: empty_Watch_def insert_wd_def Let_def erase_watch erase_rwatch erase_wd)
  from stats_equal_after_each_op [OF h] h show ?thesis
    by (simp only: list_all_iff simp_thms)
qed

text \<open>
  C1 as stated, with no restriction on the arguments, fails: inserting a second
  (parent, name) pair under a descriptor that is already present overwrites the forward
  entry and adds a reverse entry, so \<open>stats\<close> prints 1 and 2.
\<close>

theorem stats_diverge_counterexample:
  "map stats (states_after empty_Watch [Insert (- 1) ''a'' 1, Insert (- 1) ''b'' 1])
     = [(1, 1), (1, 2)]"
  by (simp add: stats_def insert_wd_def empty_Watch_def Let_def)

lemmas reg_defs = insert_wd_def empty_Watch_def Let_def

section \<open>When the walk returns\<close>

lemma absent_chain_stays:
  "m w = None \<Longrightarrow> m 0 = None \<Longrightarrow> (parent_of m ^^ k) w = w \<or> (parent_of m ^^ k) w = 0"
  by (induction k) (auto simp: parent_of_def)

lemma get_absent_diverges:
  assumes "watch W w = None" and "watch W 0 = None"
  shows "get W w = None"
proof (rule ccontr)
  assume "get W w \<noteq> None"
  then obtain r where "get W w = Some r" by blast
  from get_reaches [OF this] obtain k
    where k: "parent_of (watch W) ((parent_of (watch W) ^^ k) w) = - 1" by blast
  from absent_chain_stays [OF assms, of k] assms
  have "parent_of (watch W) ((parent_of (watch W) ^^ k) w) = 0"
    by (auto simp: parent_of_def)
  with k show False by simp
qed

lemma get_returns_iff:
  "(\<exists>r. get W w = Some r) \<longleftrightarrow> (\<exists>k. parent_of (watch W) ((parent_of (watch W) ^^ k) w) = - 1)"
  using get_reaches reaches_get by blast

lemma absent_continues_at_0:
  assumes "watch W w = None"
  shows "get W w = None \<longleftrightarrow> get W 0 = None"
proof -
  let ?f = "parent_of (watch W)"
  from assms have f: "?f w = 0" by (simp add: parent_of_def)
  have "(\<exists>k. ?f ((?f ^^ k) w) = - 1) \<longleftrightarrow> (\<exists>k. ?f ((?f ^^ k) 0) = - 1)"
  proof
    assume "\<exists>k. ?f ((?f ^^ k) w) = - 1"
    then obtain k where k: "?f ((?f ^^ k) w) = - 1" by blast
    with f obtain j where "k = Suc j" by (cases k) auto
    with k f have "?f ((?f ^^ j) 0) = - 1" by (simp add: funpow_swap1)
    then show "\<exists>k. ?f ((?f ^^ k) 0) = - 1" by blast
  next
    assume "\<exists>k. ?f ((?f ^^ k) 0) = - 1"
    then obtain k where "?f ((?f ^^ k) 0) = - 1" by blast
    with f have "?f ((?f ^^ Suc k) w) = - 1" by (simp add: funpow_swap1)
    then show "\<exists>k. ?f ((?f ^^ k) w) = - 1" by blast
  qed
  then have "(\<exists>r. get W w = Some r) \<longleftrightarrow> (\<exists>r. get W 0 = Some r)"
    by (simp only: get_returns_iff)
  then show ?thesis by auto
qed

lemma get_absent_inserts:
  assumes "watch W w = None" and "get W w = Some (s, W')"
  shows "watch W' w = Some \<lparr>pd = 0, name = ''''\<rparr>"
proof -
  let ?W1 = "W\<lparr>watch := (watch W)(w \<mapsto> default_elem)\<rparr>"
  from assms obtain s' where g: "get ?W1 0 = Some (s', W')"
    by (auto simp: get_absent split: bind_splits)
  have "watch ?W1 w = Some default_elem" by simp
  with get_keeps_entries [OF g] have "watch W' w = Some default_elem" by simp
  then show ?thesis by (simp add: default_elem_def)
qed

text \<open>
  C9 (amended). \<open>get (wd)\<close> returns for exactly those descriptors whose chain of parents,
  read through the forward map as \<open>watch[wd].pd\<close> reads it (parent 0 for an absent
  descriptor), reaches after finitely many steps an entry with parent \<open>-1\<close>; for a
  descriptor whose chain never reaches such an entry the recursion does not return. For a
  descriptor absent from the forward map the lookup default-inserts the entry with
  parent 0 and empty name, which is in the forward map whenever the call returns, and the
  walk continues from descriptor 0 in the object with that entry; so the recursion does
  not return exactly when the walk from descriptor 0 does not return, as when descriptor 0
  is absent as well.
\<close>

theorem get_returns_iff_chain_reaches_root:
  "((\<exists>r. get W w = Some r) \<longleftrightarrow>
      (\<exists>k. parent_of (watch W) ((parent_of (watch W) ^^ k) w) = - 1))
   \<and> ((\<forall>k. parent_of (watch W) ((parent_of (watch W) ^^ k) w) \<noteq> - 1) \<longrightarrow> get W w = None)
   \<and> (watch W w = None \<longrightarrow>
        get W w = Option.bind (get (W\<lparr>watch := (watch W)(w \<mapsto> \<lparr>pd = 0, name = ''''\<rparr>)\<rparr>) 0)
                    (\<lambda>(s, W2). Some (s @ ''/'', W2)))
   \<and> (watch W w = None \<and> get W w = Some (s, W') \<longrightarrow> watch W' w = Some \<lparr>pd = 0, name = ''''\<rparr>)
   \<and> (watch W w = None \<longrightarrow> (get W w = None \<longleftrightarrow> get W 0 = None))
   \<and> (watch W w = None \<and> watch W 0 = None \<longrightarrow> get W w = None)"
proof (intro conjI impI)
  show "(\<exists>r. get W w = Some r) \<longleftrightarrow>
      (\<exists>k. parent_of (watch W) ((parent_of (watch W) ^^ k) w) = - 1)"
    by (rule get_returns_iff)
  show "get W w = None" if "\<forall>k. parent_of (watch W) ((parent_of (watch W) ^^ k) w) \<noteq> - 1"
    using that get_reaches [of W w] by (cases "get W w") auto
  show "get W w = Option.bind (get (W\<lparr>watch := (watch W)(w \<mapsto> \<lparr>pd = 0, name = ''''\<rparr>)\<rparr>) 0)
                    (\<lambda>(s, W2). Some (s @ ''/'', W2))" if "watch W w = None"
    using get_absent [OF that] by (simp add: default_elem_def)
  show "watch W' w = Some \<lparr>pd = 0, name = ''''\<rparr>" if "watch W w = None \<and> get W w = Some (s, W')"
    using that get_absent_inserts [of W w s W'] by simp
  show "get W w = None \<longleftrightarrow> get W 0 = None" if "watch W w = None"
    using that by (rule absent_continues_at_0)
  show "get W w = None" if "watch W w = None \<and> watch W 0 = None"
    using that by (simp add: get_absent_diverges)
qed

theorem get_returns_iff_chain_reaches_root_witness:
  "watch (insert_wd empty_Watch (- 1) ''./tmp'' 1) 7 = None
   \<and> watch (insert_wd empty_Watch (- 1) ''./tmp'' 1) 0 = None
   \<and> (\<forall>k. parent_of (watch (insert_wd empty_Watch (- 1) ''./tmp'' 1))
              ((parent_of (watch (insert_wd empty_Watch (- 1) ''./tmp'' 1)) ^^ k) 7) \<noteq> - 1)
   \<and> get (insert_wd empty_Watch (- 1) ''./tmp'' 1) 7 = None
   \<and> get (insert_wd empty_Watch (- 1) ''./tmp'' 1) 0 = None
   \<and> parent_of (watch (insert_wd empty_Watch (- 1) ''./tmp'' 1)) 1 = - 1
   \<and> (\<exists>r. get (insert_wd empty_Watch (- 1) ''./tmp'' 1) 1 = Some r)
   \<and> watch (insert_wd empty_Watch (- 1) ''r'' 0) 5 = None
   \<and> get (insert_wd empty_Watch (- 1) ''r'' 0) 5
       = Some (''r/'', \<lparr>watch = [0 \<mapsto> \<lparr>pd = - 1, name = ''r''\<rparr>, 5 \<mapsto> \<lparr>pd = 0, name = ''''\<rparr>],
                         rwatch = [\<lparr>pd = - 1, name = ''r''\<rparr> \<mapsto> 0]\<rparr>)
   \<and> watch \<lparr>watch = [0 \<mapsto> \<lparr>pd = - 1, name = ''r''\<rparr>, 5 \<mapsto> \<lparr>pd = 0, name = ''''\<rparr>],
             rwatch = [\<lparr>pd = - 1, name = ''r''\<rparr> \<mapsto> 0]\<rparr> 5 = Some \<lparr>pd = 0, name = ''''\<rparr>"
proof -
  let ?W = "insert_wd empty_Watch (- 1) ''./tmp'' 1"
  let ?V = "insert_wd empty_Watch (- 1) ''r'' 0"
  let ?V1 = "?V\<lparr>watch := (watch ?V)(5 \<mapsto> \<lparr>pd = 0, name = ''''\<rparr>)\<rparr>"
  let ?V2 = "\<lparr>watch = [0 \<mapsto> \<lparr>pd = - 1, name = ''r''\<rparr>, 5 \<mapsto> \<lparr>pd = 0, name = ''''\<rparr>],
             rwatch = [\<lparr>pd = - 1, name = ''r''\<rparr> \<mapsto> 0]\<rparr>"
  have a: "watch ?W 7 = None" and b: "watch ?W 0 = None"
    by (simp_all add: reg_defs)
  have c: "parent_of (watch ?W) ((parent_of (watch ?W) ^^ 0) 1) = - 1"
    by (simp add: parent_of_def reg_defs)
  have n: "parent_of (watch ?W) ((parent_of (watch ?W) ^^ k) 7) \<noteq> - 1" for k
    using absent_chain_stays [OF a b, of k] a b by (auto simp: parent_of_def)
  note inst = get_returns_iff_chain_reaches_root [of ?W]
  from inst [of 7] n have d: "get ?W 7 = None" by blast
  from inst [of 7] a d have e: "get ?W 0 = None" by blast
  from inst [of 1] c have f: "\<exists>r. get ?W 1 = Some r" by blast
  have v: "watch ?V 5 = None" by (simp add: reg_defs)
  have v1: "?V1 = ?V2" by (simp add: reg_defs)
  have "get ?V1 0 = Some (''r'', ?V1)"
    by (rule get_root [of ?V1 0 "\<lparr>pd = - 1, name = ''r''\<rparr>", simplified]) (simp add: reg_defs)
  moreover from get_returns_iff_chain_reaches_root [of ?V 5] v
  have "get ?V 5 = Option.bind (get ?V1 0) (\<lambda>(s, W2). Some (s @ ''/'', W2))" by blast
  ultimately have g: "get ?V 5 = Some (''r/'', ?V2)" by (simp add: v1)
  from get_returns_iff_chain_reaches_root [of ?V 5 "''r/''" ?V2] v g
  have h: "watch ?V2 5 = Some \<lparr>pd = 0, name = ''''\<rparr>" by blast
  from a b c n d e f v g h show ?thesis by simp
qed

text \<open>
  C9 as stated fails in its last clause: with the root \<open>r\<close> under descriptor 1 and \<open>z\<close>
  under descriptor 0 with parent 1, no root entry has descriptor 0 and descriptor 7 is
  absent, yet \<open>get (7)\<close> returns: it default-inserts the entry with parent 0 for 7,
  walks from 0 to 1 and gives \<open>r/z/\<close>.
\<close>

theorem get_absent_handle_returns_counterexample:
  "watch (insert_wd (insert_wd empty_Watch (- 1) ''r'' 1) 1 ''z'' 0) 7 = None
   \<and> watch (insert_wd (insert_wd empty_Watch (- 1) ''r'' 1) 1 ''z'' 0) 0 = Some \<lparr>pd = 1, name = ''z''\<rparr>
   \<and> watch (insert_wd (insert_wd empty_Watch (- 1) ''r'' 1) 1 ''z'' 0) 1 = Some \<lparr>pd = - 1, name = ''r''\<rparr>
   \<and> dom (watch (insert_wd (insert_wd empty_Watch (- 1) ''r'' 1) 1 ''z'' 0)) = {0, 1}
   \<and> get (insert_wd (insert_wd empty_Watch (- 1) ''r'' 1) 1 ''z'' 0) 7
       = Some (''r/z/'',
               (insert_wd (insert_wd empty_Watch (- 1) ''r'' 1) 1 ''z'' 0)
                 \<lparr>watch := (watch (insert_wd (insert_wd empty_Watch (- 1) ''r'' 1) 1 ''z'' 0))
                              (7 \<mapsto> \<lparr>pd = 0, name = ''''\<rparr>)\<rparr>)"
proof -
  let ?W = "insert_wd (insert_wd empty_Watch (- 1) ''r'' 1) 1 ''z'' 0"
  let ?W1 = "?W\<lparr>watch := (watch ?W)(7 \<mapsto> default_elem)\<rparr>"
  have a: "watch ?W 7 = None" and b: "watch ?W 0 = Some \<lparr>pd = 1, name = ''z''\<rparr>"
    and c: "watch ?W 1 = Some \<lparr>pd = - 1, name = ''r''\<rparr>" and d: "dom (watch ?W) = {0, 1}"
    by (auto simp: reg_defs)
  have g1: "get ?W1 1 = Some (''r'', ?W1)"
    by (rule get_root [of ?W1 1 "\<lparr>pd = - 1, name = ''r''\<rparr>", simplified]) (simp add: reg_defs)
  have g0: "get ?W1 0 = Some (''r/z'', ?W1)"
    using get_child [of ?W1 0 "\<lparr>pd = 1, name = ''z''\<rparr>" "''r''" ?W1] g1 by (simp add: reg_defs)
  have "get ?W 7 = Some (''r/z/'', ?W1)"
    by (simp add: get_absent [OF a] g0)
  then have "get ?W 7 = Some (''r/z/'', ?W\<lparr>watch := (watch ?W)(7 \<mapsto> \<lparr>pd = 0, name = ''''\<rparr>)\<rparr>)"
    by (simp add: default_elem_def)
  with a b c d show ?thesis by blast
qed

section \<open>What the walk returns\<close>

text \<open>
  C4 (amended). \<open>get (wd)\<close> returns the full path joined along the parent chain, and
  leaves the object unchanged, for every descriptor whose chain of present entries ends in
  a root entry. There is no failure for an absent descriptor: the lookup default-inserts
  the element \<open>{0, ""}\<close> for it into the forward map and the walk goes on from
  descriptor 0, its result extended by \<open>/\<close> and the empty name.
\<close>

theorem get_on_live_chain:
  "(resolves (watch W) w s \<longrightarrow> get W w = Some (s, W))
   \<and> (watch W w = None \<longrightarrow>
        get W w = Option.bind (get (W\<lparr>watch := (watch W)(w \<mapsto> default_elem)\<rparr>) 0)
                    (\<lambda>(s, W2). Some (s @ ''/'', W2)))"
  by (simp add: resolves_get get_absent)

theorem get_on_live_chain_witness:
  "resolves (watch (insert_wd (insert_wd empty_Watch (- 1) ''./tmp'' 1) 1 ''x'' 2)) 2 ''./tmp/x''
   \<and> get (insert_wd (insert_wd empty_Watch (- 1) ''./tmp'' 1) 1 ''x'' 2) 2
       = Some (''./tmp/x'', insert_wd (insert_wd empty_Watch (- 1) ''./tmp'' 1) 1 ''x'' 2)
   \<and> watch (insert_wd empty_Watch (- 1) ''r'' 0) 5 = None
   \<and> get (insert_wd empty_Watch (- 1) ''r'' 0) 5
       = Option.bind
           (get ((insert_wd empty_Watch (- 1) ''r'' 0)
                   \<lparr>watch := (watch (insert_wd empty_Watch (- 1) ''r'' 0))(5 \<mapsto> default_elem)\<rparr>) 0)
           (\<lambda>(s, W2). Some (s @ ''/'', W2))"
proof -
  let ?W = "insert_wd (insert_wd empty_Watch (- 1) ''./tmp'' 1) 1 ''x'' 2"
  let ?V = "insert_wd empty_Watch (- 1) ''r'' 0"
  have r1: "resolves (watch ?W) 1 ''./tmp''"
    using resolves.root [of "watch ?W" 1 "\<lparr>pd = - 1, name = ''./tmp''\<rparr>"]
    by (simp add: reg_defs)
  have r2: "resolves (watch ?W) 2 ''./tmp/x''"
    using resolves.child [of "watch ?W" 2 "\<lparr>pd = 1, name = ''x''\<rparr>" "''./tmp''"] r1
    by (simp add: reg_defs)
  have a: "watch ?V 5 = None" by (simp add: reg_defs)
  from get_on_live_chain [of ?W 2 "''./tmp/x''"] r2
  have g: "get ?W 2 = Some (''./tmp/x'', ?W)" by blast
  from get_on_live_chain [of ?V 5] a
  have h: "get ?V 5 = Option.bind (get (?V\<lparr>watch := (watch ?V)(5 \<mapsto> default_elem)\<rparr>) 0)
                        (\<lambda>(s, W2). Some (s @ ''/'', W2))" by blast
  from r2 g a h show ?thesis by blast
qed

text \<open>
  C4 as stated fails: with a root entry under descriptor 0, \<open>get (5)\<close> for the absent
  descriptor 5 returns \<open>r/\<close> instead of failing, and it leaves a new forward entry for 5
  behind, so the sizes printed by \<open>stats\<close> go from (1, 1) to (2, 1).
\<close>

theorem get_absent_handle_counterexample:
  "watch (insert_wd empty_Watch (- 1) ''r'' 0) 5 = None
   \<and> get (insert_wd empty_Watch (- 1) ''r'' 0) 5
       = Some (''r/'', \<lparr>watch = [0 \<mapsto> \<lparr>pd = - 1, name = ''r''\<rparr>, 5 \<mapsto> \<lparr>pd = 0, name = ''''\<rparr>],
                         rwatch = [\<lparr>pd = - 1, name = ''r''\<rparr> \<mapsto> 0]\<rparr>)
   \<and> stats (insert_wd empty_Watch (- 1) ''r'' 0) = (1, 1)
   \<and> stats \<lparr>watch = [0 \<mapsto> \<lparr>pd = - 1, name = ''r''\<rparr>, 5 \<mapsto> \<lparr>pd = 0, name = ''''\<rparr>],
             rwatch = [\<lparr>pd = - 1, name = ''r''\<rparr> \<mapsto> 0]\<rparr> = (2, 1)"
proof -
  let ?W = "insert_wd empty_Watch (- 1) ''r'' 0"
  let ?W1 = "?W\<lparr>watch := (watch ?W)(5 \<mapsto> default_elem)\<rparr>"
  have a: "watch ?W 5 = None" by (simp add: reg_defs)
  have "get ?W1 0 = Some (''r'', ?W1)"
    by (rule get_root [of ?W1 0 "\<lparr>pd = - 1, name = ''r''\<rparr>", simplified]) (simp add: reg_defs)
  then have "get ?W 5 = Some (''r/'', ?W1)"
    by (simp add: get_absent [OF a])
  moreover have "?W1 = \<lparr>watch = [0 \<mapsto> \<lparr>pd = - 1, name = ''r''\<rparr>, 5 \<mapsto> \<lparr>pd = 0, name = ''''\<rparr>],
                         rwatch = [\<lparr>pd = - 1, name = ''r''\<rparr> \<mapsto> 0]\<rparr>"
    by (simp add: reg_defs default_elem_def)
  ultimately show ?thesis using a by (simp add: stats_def reg_defs)
qed

section \<open>Round trip of an inserted entry\<close>

lemma live_insert: "live (insert_wd W p n w) p n w"
  by (simp add: live_def insert_wd_def Let_def)

lemma live_lookup: "live W p n w \<Longrightarrow> get_pd_name W p n = (w, W)"
  by (simp add: live_def get_pd_name_def rwatch_at_def Let_def)

lemma live_get_root: "live W (- 1) n w \<Longrightarrow> get W w = Some (n, W)"
  using get_root [of W w "\<lparr>pd = - 1, name = n\<rparr>"] by (simp add: live_def)

lemma live_get_child:
  "live W p n w \<Longrightarrow> p \<noteq> - 1 \<Longrightarrow> get W p = Some (s, W') \<Longrightarrow> get W w = Some (s @ ''/'' @ n, W')"
  using get_child [of W w "\<lparr>pd = p, name = n\<rparr>" s W'] by (simp add: live_def)

lemma live_insert_other:
  "live W p n w \<Longrightarrow> w' \<noteq> w \<Longrightarrow> (p', n') \<noteq> (p, n) \<Longrightarrow> live (insert_wd W p' n' w') p n w"
  by (auto simp: live_def insert_wd_def Let_def)

lemma live_erase_other:
  "live W p n w \<Longrightarrow> (p', n') \<noteq> (p, n) \<Longrightarrow> fst (snd (erase W p' n')) \<noteq> w
     \<Longrightarrow> live (snd (snd (erase W p' n'))) p n w"
  by (auto simp: live_def erase_watch erase_rwatch)

text \<open>
  C5. \<open>insert (pd, name, wd)\<close> makes the entry live. While an entry is live,
  \<open>get (pd, name)\<close> returns exactly its descriptor (and changes nothing), and \<open>get (wd)\<close>
  returns the name itself for a root entry and otherwise the parent's path followed by
  \<open>/\<close> and the name. The entry stays live across an \<open>insert\<close> of another descriptor and
  pair and across an \<open>erase\<close> that names another pair and removes another descriptor.
  After inserting the root \<open>/tmp/root\<close> as 1, \<open>a\<close> under 1 as 2 and \<open>b\<close> under 2 as 3,
  \<open>get (3)\<close> is \<open>/tmp/root/a/b\<close>.
\<close>

theorem insert_round_trip:
  "live (insert_wd W p n w) p n w
   \<and> (live W p n w \<longrightarrow> get_pd_name W p n = (w, W))
   \<and> (live W p n w \<and> p = - 1 \<longrightarrow> get W w = Some (n, W))
   \<and> (live W p n w \<and> p \<noteq> - 1 \<and> get W p = Some (s, W') \<longrightarrow> get W w = Some (s @ ''/'' @ n, W'))
   \<and> (live W p n w \<and> w' \<noteq> w \<and> (p', n') \<noteq> (p, n) \<longrightarrow> live (insert_wd W p' n' w') p n w)
   \<and> (live W p n w \<and> (p', n') \<noteq> (p, n) \<and> fst (snd (erase W p' n')) \<noteq> w
        \<longrightarrow> live (snd (snd (erase W p' n'))) p n w)
   \<and> get (insert_wd (insert_wd (insert_wd empty_Watch (- 1) ''/tmp/root'' 1) 1 ''a'' 2) 2 ''b'' 3) 3
       = Some (''/tmp/root/a/b'',
               insert_wd (insert_wd (insert_wd empty_Watch (- 1) ''/tmp/root'' 1) 1 ''a'' 2) 2 ''b'' 3)"
proof -
  let ?W = "insert_wd (insert_wd (insert_wd empty_Watch (- 1) ''/tmp/root'' 1) 1 ''a'' 2) 2 ''b'' 3"
  have l1: "live ?W (- 1) ''/tmp/root'' 1" and l2: "live ?W 1 ''a'' 2" and l3: "live ?W 2 ''b'' 3"
    by (simp_all add: live_def reg_defs)
  have g1: "get ?W 1 = Some (''/tmp/root'', ?W)" using l1 by (rule live_get_root)
  have g2: "get ?W 2 = Some (''/tmp/root/a'', ?W)" using live_get_child [OF l2 _ g1] by simp
  have g3: "get ?W 3 = Some (''/tmp/root/a/b'', ?W)" using live_get_child [OF l3 _ g2] by simp
  show ?thesis
  proof (intro conjI impI)
    show "live (insert_wd W p n w) p n w" by (rule live_insert)
    show "get_pd_name W p n = (w, W)" if "live W p n w"
      using that by (rule live_lookup)
    show "get W w = Some (n, W)" if "live W p n w \<and> p = - 1"
      using that by (auto intro: live_get_root)
    show "get W w = Some (s @ ''/'' @ n, W')" if "live W p n w \<and> p \<noteq> - 1 \<and> get W p = Some (s, W')"
    proof -
      from that have "live W p n w" "p \<noteq> - 1" "get W p = Some (s, W')" by simp_all
      then show ?thesis by (rule live_get_child)
    qed
    show "live (insert_wd W p' n' w') p n w" if "live W p n w \<and> w' \<noteq> w \<and> (p', n') \<noteq> (p, n)"
      using that by (auto intro: live_insert_other)
    show "live (snd (snd (erase W p' n'))) p n w"
      if "live W p n w \<and> (p', n') \<noteq> (p, n) \<and> fst (snd (erase W p' n')) \<noteq> w"
      using that by (auto intro: live_erase_other)
    show "get ?W 3 = Some (''/tmp/root/a/b'', ?W)" by (rule g3)
  qed
qed

theorem insert_round_trip_witness:
  "live (insert_wd (insert_wd empty_Watch (- 1) ''./tmp'' 1) 1 ''x'' 2) 1 ''x'' 2
   \<and> get (insert_wd (insert_wd empty_Watch (- 1) ''./tmp'' 1) 1 ''x'' 2) 1
       = Some (''./tmp'', insert_wd (insert_wd empty_Watch (- 1) ''./tmp'' 1) 1 ''x'' 2)
   \<and> get_pd_name (insert_wd (insert_wd empty_Watch (- 1) ''./tmp'' 1) 1 ''x'' 2) 1 ''x''
       = (2, insert_wd (insert_wd empty_Watch (- 1) ''./tmp'' 1) 1 ''x'' 2)
   \<and> get (insert_wd (insert_wd empty_Watch (- 1) ''./tmp'' 1) 1 ''x'' 2) 2
       = Some (''./tmp/x'', insert_wd (insert_wd empty_Watch (- 1) ''./tmp'' 1) 1 ''x'' 2)
   \<and> live (insert_wd (insert_wd (insert_wd empty_Watch (- 1) ''./tmp'' 1) 1 ''x'' 2) 1 ''y'' 3) 1 ''x'' 2
   \<and> fst (snd (erase (insert_wd (insert_wd (insert_wd empty_Watch (- 1) ''./tmp'' 1) 1 ''x'' 2) 1 ''y'' 3)
                   1 ''y'')) = 3
   \<and> live (snd (snd (erase (insert_wd (insert_wd (insert_wd empty_Watch (- 1) ''./tmp'' 1) 1 ''x'' 2) 1 ''y'' 3)
                         1 ''y''))) 1 ''x'' 2"
proof -
  let ?W = "insert_wd (insert_wd empty_Watch (- 1) ''./tmp'' 1) 1 ''x'' 2"
  let ?Y = "insert_wd ?W 1 ''y'' 3"
  have l: "live ?W 1 ''x'' 2"
    using insert_round_trip [of "insert_wd empty_Watch (- 1) ''./tmp'' 1" 1 "''x''" 2] by blast
  have lr: "live ?W (- 1) ''./tmp'' 1" by (simp add: live_def reg_defs)
  from insert_round_trip [of ?W "- 1" "''./tmp''" 1] lr
  have g: "get ?W 1 = Some (''./tmp'', ?W)" by blast
  note inst = insert_round_trip [of ?W 1 "''x''" 2 "''./tmp''" ?W 3 1 "''y''"]
  from inst l have k: "get_pd_name ?W 1 ''x'' = (2, ?W)" by blast
  from inst l g have c: "get ?W 2 = Some (''./tmp'' @ ''/'' @ ''x'', ?W)" by simp
  from inst l have ly: "live ?Y 1 ''x'' 2" by simp
  have e: "fst (snd (erase ?Y 1 ''y'')) = 3" by (simp add: erase_wd reg_defs)
  from insert_round_trip [of ?Y 1 "''x''" 2 _ _ _ 1 "''y''"] ly e
  have le: "live (snd (snd (erase ?Y 1 ''y''))) 1 ''x'' 2" by simp
  from l g k c ly e le show ?thesis by simp
qed

section \<open>Inserting under a descriptor that is present\<close>

text \<open>
  C10 (amended). When the two maps are inverse to each other and \<open>insert (pd, name, wd)\<close>
  is called with a descriptor that is present under a different (parent, name) pair and
  with a pair that is itself absent from the reverse map, the forward entry of the
  descriptor is overwritten, the old reverse entry stays, and afterwards the reverse map
  holds exactly one more entry than the forward map.
\<close>

theorem insert_live_handle_leaves_stale_reverse_entry:
  assumes "inverse_maps W" and "finite (dom (rwatch W))"
    and "watch W w = Some e0" and "e0 \<noteq> \<lparr>pd = p, name = n\<rparr>"
    and "rwatch W \<lparr>pd = p, name = n\<rparr> = None"
  shows "watch (insert_wd W p n w) w = Some \<lparr>pd = p, name = n\<rparr>
         \<and> rwatch (insert_wd W p n w) e0 = Some w
         \<and> snd (stats (insert_wd W p n w)) = fst (stats (insert_wd W p n w)) + 1"
proof -
  from assms(1,3) have r: "rwatch W e0 = Some w" by (simp add: inverse_maps_def)
  have fw: "dom (watch (insert_wd W p n w)) = dom (watch W)"
    using assms(3) by (auto simp: insert_wd_def Let_def)
  have rv: "dom (rwatch (insert_wd W p n w)) = insert \<lparr>pd = p, name = n\<rparr> (dom (rwatch W))"
    by (simp add: insert_wd_def Let_def)
  have "\<lparr>pd = p, name = n\<rparr> \<notin> dom (rwatch W)" using assms(5) by (simp add: dom_def)
  with assms(2) have "card (dom (rwatch (insert_wd W p n w))) = Suc (card (dom (rwatch W)))"
    by (simp add: rv)
  with inverse_maps_card [OF assms(1)] fw
  have "snd (stats (insert_wd W p n w)) = fst (stats (insert_wd W p n w)) + 1"
    by (simp add: stats_def)
  moreover have "watch (insert_wd W p n w) w = Some \<lparr>pd = p, name = n\<rparr>"
    by (simp add: insert_wd_def Let_def)
  moreover have "rwatch (insert_wd W p n w) e0 = Some w"
    using r assms(4) by (simp add: insert_wd_def Let_def)
  ultimately show ?thesis by simp
qed

lemma root_inverse: "inverse_maps (insert_wd empty_Watch (- 1) ''a'' 1)"
  by (rule inverse_maps_insert [OF inverse_maps_empty]) (simp_all add: empty_Watch_def)

theorem insert_live_handle_leaves_stale_reverse_entry_witness:
  "inverse_maps (insert_wd empty_Watch (- 1) ''a'' 1)
   \<and> finite (dom (rwatch (insert_wd empty_Watch (- 1) ''a'' 1)))
   \<and> watch (insert_wd empty_Watch (- 1) ''a'' 1) 1 = Some \<lparr>pd = - 1, name = ''a''\<rparr>
   \<and> rwatch (insert_wd empty_Watch (- 1) ''a'' 1) \<lparr>pd = - 1, name = ''b''\<rparr> = None
   \<and> rwatch (insert_wd (insert_wd empty_Watch (- 1) ''a'' 1) (- 1) ''b'' 1) \<lparr>pd = - 1, name = ''a''\<rparr> = Some 1
   \<and> watch (insert_wd (insert_wd empty_Watch (- 1) ''a'' 1) (- 1) ''b'' 1) 1 = Some \<lparr>pd = - 1, name = ''b''\<rparr>
   \<and> snd (stats (insert_wd (insert_wd empty_Watch (- 1) ''a'' 1) (- 1) ''b'' 1))
       = fst (stats (insert_wd (insert_wd empty_Watch (- 1) ''a'' 1) (- 1) ''b'' 1)) + 1"
proof -
  let ?W = "insert_wd empty_Watch (- 1) ''a'' 1"
  have a: "finite (dom (rwatch ?W))" by (simp add: reg_defs)
  have b: "watch ?W 1 = Some \<lparr>pd = - 1, name = ''a''\<rparr>" by (simp add: reg_defs)
  have c: "\<lparr>pd = - 1, name = ''a''\<rparr> \<noteq> \<lparr>pd = - 1, name = ''b''\<rparr>" by simp
  have d: "rwatch ?W \<lparr>pd = - 1, name = ''b''\<rparr> = None" by (simp add: reg_defs)
  from insert_live_handle_leaves_stale_reverse_entry [OF root_inverse a b c d] root_inverse a b d
  show ?thesis by simp
qed

text \<open>
  C10 as stated fails when the inserted pair is itself present: with \<open>a\<close> under
  descriptor 1 and \<open>b\<close> under descriptor 2, \<open>insert (-1, "b", 1)\<close> overwrites the forward
  entry of 1 and redirects the reverse entry of \<open>b\<close>, and both maps keep two entries.
\<close>

theorem insert_live_handle_counterexample:
  "inverse_maps (insert_wd (insert_wd empty_Watch (- 1) ''a'' 1) (- 1) ''b'' 2)
   \<and> watch (insert_wd (insert_wd empty_Watch (- 1) ''a'' 1) (- 1) ''b'' 2) 1
       = Some \<lparr>pd = - 1, name = ''a''\<rparr>
   \<and> stats (insert_wd (insert_wd empty_Watch (- 1) ''a'' 1) (- 1) ''b'' 2) = (2, 2)
   \<and> stats (insert_wd (insert_wd (insert_wd empty_Watch (- 1) ''a'' 1) (- 1) ''b'' 2) (- 1) ''b'' 1)
       = (2, 2)"
proof -
  have "inverse_maps (insert_wd (insert_wd empty_Watch (- 1) ''a'' 1) (- 1) ''b'' 2)"
    by (rule inverse_maps_insert [OF root_inverse]) (simp_all add: reg_defs)
  then show ?thesis by (simp add: stats_def reg_defs)
qed

section \<open>Pairs that are absent from the reverse map\<close>

lemma erase_absent_pair:
  assumes "rwatch W \<lparr>pd = p, name = n\<rparr> = None"
  shows "erase W p n = (case watch W 0 of None \<Rightarrow> '''' | Some e \<Rightarrow> name e, 0, W\<lparr>watch := (watch W)(0 := None)\<rparr>)"
  using assms
  by (cases W) (auto simp: erase_def rwatch_at_def watch_at_def default_elem_def Let_def fun_upd_idem_iff split: option.splits)

text \<open>
  C3 (amended). For a (parent, name) pair that is absent from the reverse map neither
  \<open>erase\<close> nor \<open>get (pd, name)\<close> fails. Both yield the default descriptor 0: \<open>erase\<close>
  returns the name stored under descriptor 0 (the empty string if there is none), removes
  the forward entry of descriptor 0 and leaves the reverse map as it was; \<open>get (pd, name)\<close>
  leaves the reverse entry (parent, name) to 0 behind. When descriptor 0 is absent from the
  forward map, \<open>erase\<close> leaves the whole object, and so the sizes printed by \<open>stats\<close>,
  unchanged.
\<close>

theorem absent_pair_yields_default_handle:
  assumes "rwatch W \<lparr>pd = p, name = n\<rparr> = None"
  shows "erase W p n = (case watch W 0 of None \<Rightarrow> '''' | Some e \<Rightarrow> name e, 0,
                        W\<lparr>watch := (watch W)(0 := None)\<rparr>)
         \<and> get_pd_name W p n = (0, W\<lparr>rwatch := (rwatch W)(\<lparr>pd = p, name = n\<rparr> \<mapsto> 0)\<rparr>)
         \<and> (watch W 0 = None \<longrightarrow> erase W p n = ('''', 0, W) \<and> stats (snd (snd (erase W p n))) = stats W)"
proof (intro conjI impI)
  show e: "erase W p n = (case watch W 0 of None \<Rightarrow> '''' | Some e \<Rightarrow> name e, 0,
                        W\<lparr>watch := (watch W)(0 := None)\<rparr>)"
    using assms by (rule erase_absent_pair)
  show "get_pd_name W p n = (0, W\<lparr>rwatch := (rwatch W)(\<lparr>pd = p, name = n\<rparr> \<mapsto> 0)\<rparr>)"
    using assms by (simp add: get_pd_name_def rwatch_at_def Let_def)
  show e': "erase W p n = ('''', 0, W)" if "watch W 0 = None"
    using that e by (cases W) (simp add: fun_upd_idem_iff)
  show "stats (snd (snd (erase W p n))) = stats W" if "watch W 0 = None"
    using e' [OF that] by simp
qed

theorem absent_pair_yields_default_handle_witness:
  "rwatch (insert_wd empty_Watch (- 1) ''./tmp'' 1) \<lparr>pd = 1, name = ''nonexistent''\<rparr> = None
   \<and> watch (insert_wd empty_Watch (- 1) ''./tmp'' 1) 0 = None
   \<and> erase (insert_wd empty_Watch (- 1) ''./tmp'' 1) 1 ''nonexistent''
       = ('''', 0, insert_wd empty_Watch (- 1) ''./tmp'' 1)
   \<and> fst (get_pd_name (insert_wd empty_Watch (- 1) ''./tmp'' 1) 1 ''nonexistent'') = 0"
proof -
  let ?W = "insert_wd empty_Watch (- 1) ''./tmp'' 1"
  have a: "rwatch ?W \<lparr>pd = 1, name = ''nonexistent''\<rparr> = None" by (simp add: reg_defs)
  have b: "watch ?W 0 = None" by (simp add: reg_defs)
  note inst = absent_pair_yields_default_handle [OF a]
  from inst b have c: "erase ?W 1 ''nonexistent'' = ('''', 0, ?W)" by blast
  from inst have "get_pd_name ?W 1 ''nonexistent''
      = (0, ?W\<lparr>rwatch := (rwatch ?W)(\<lparr>pd = 1, name = ''nonexistent''\<rparr> \<mapsto> 0)\<rparr>)" by blast
  then have d: "fst (get_pd_name ?W 1 ''nonexistent'') = 0" by simp
  from a b c d show ?thesis by blast
qed

text \<open>
  C3 as stated fails: with a root entry under descriptor 0, \<open>erase (5, "nonexistent")\<close>
  returns the root's name and the descriptor 0 instead of failing, \<open>get (5, "nonexistent")\<close>
  returns 0, and the \<open>erase\<close> takes the sizes printed by \<open>stats\<close> from (1, 1) to (0, 1).
\<close>

theorem erase_unknown_pair_counterexample:
  "rwatch (insert_wd empty_Watch (- 1) ''r'' 0) \<lparr>pd = 5, name = ''nonexistent''\<rparr> = None
   \<and> fst (erase (insert_wd empty_Watch (- 1) ''r'' 0) 5 ''nonexistent'') = ''r''
   \<and> fst (snd (erase (insert_wd empty_Watch (- 1) ''r'' 0) 5 ''nonexistent'')) = 0
   \<and> fst (get_pd_name (insert_wd empty_Watch (- 1) ''r'' 0) 5 ''nonexistent'') = 0
   \<and> stats (insert_wd empty_Watch (- 1) ''r'' 0) = (1, 1)
   \<and> stats (snd (snd (erase (insert_wd empty_Watch (- 1) ''r'' 0) 5 ''nonexistent''))) = (0, 1)"
  by (simp add: erase_wd erase_name erase_watch erase_rwatch stats_def get_pd_name_def rwatch_at_def reg_defs)

section \<open>Teardown\<close>

text \<open>
  C6. With the root entry that \<open>main\<close> always inserts, \<open>cleanup\<close> erases the entry its
  iterator points to and then increments that iterator: the call has no defined result,
  so neither the descriptors handed to \<open>inotify_rm_watch\<close> nor the sizes afterwards are
  determined. Only on an empty object does \<open>cleanup\<close> complete, handing over no descriptor.
\<close>

theorem cleanup_after_startup:
  "cleanup (insert_wd empty_Watch (- 1) ''./tmp'' 1) = Inl Invalidated_iterator
   \<and> cleanup empty_Watch = Inr ([], empty_Watch)"
  by (simp add: cleanup_def reg_defs)

section \<open>Facts about the event loop\<close>

lemmas flags = IN_CREATE_def IN_DELETE_def IN_Q_OVERFLOW_def IN_IGNORED_def IN_ISDIR_def

lemma emit_fields [simp]:
  "watch_v (emit x M) = watch_v M"
  "total_dir_events (emit x M) = total_dir_events M"
  "total_file_events (emit x M) = total_file_events M"
  "out (emit x M) = out M @ [x]"
  by (simp_all add: emit_def)

lemma announced_fields [simp]:
  "watch_v (announced ev M) = watch_v M"
  "total_dir_events (announced ev M) = total_dir_events M"
  "total_file_events (announced ev M) = total_file_events M"
  by (simp_all add: announced_def Let_def)

lemma process_event_named:
  "ev_len ev \<noteq> 0 \<Longrightarrow>
   process_event reply ev M =
     (if ev_mask ev AND IN_CREATE \<noteq> 0 then on_create reply ev (announced ev M)
      else if ev_mask ev AND IN_DELETE \<noteq> 0 then on_delete ev (announced ev M)
      else Some (announced ev M))"
  by (simp add: process_event_def announced_def Let_def)

lemma create_dir_step:
  assumes "ev_len ev \<noteq> 0" and "ev_mask ev AND IN_CREATE \<noteq> 0" and "ev_mask ev AND IN_ISDIR \<noteq> 0"
    and "get (watch_v M) (ev_wd ev) = Some (d, W)"
  shows "\<exists>M'. process_event reply ev M = Some M'
           \<and> watch_v M' = insert_wd W (ev_wd ev) (ev_name ev) reply
           \<and> total_dir_events M' = total_dir_events M + 1
           \<and> total_file_events M' = total_file_events M"
  using assms by (simp add: process_event_named on_create_def Let_def)

lemma create_file_step:
  assumes "ev_len ev \<noteq> 0" and "ev_mask ev AND IN_CREATE \<noteq> 0" and "ev_mask ev AND IN_ISDIR = 0"
    and "get (watch_v M) (ev_wd ev) = Some (d, W)"
  shows "\<exists>M'. process_event reply ev M = Some M'
           \<and> watch_v M' = W
           \<and> total_dir_events M' = total_dir_events M
           \<and> total_file_events M' = total_file_events M + 1"
  using assms by (simp add: process_event_named on_create_def Let_def)

lemma delete_dir_step:
  assumes "ev_len ev \<noteq> 0" and "ev_mask ev AND IN_CREATE = 0" and "ev_mask ev AND IN_DELETE \<noteq> 0"
    and "ev_mask ev AND IN_ISDIR \<noteq> 0"
  shows "\<exists>M'. process_event reply ev M = Some M'
           \<and> watch_v M' = snd (snd (erase (watch_v M) (ev_wd ev) (ev_name ev)))
           \<and> total_dir_events M' = total_dir_events M - 1
           \<and> total_file_events M' = total_file_events M"
  using assms by (simp add: process_event_named on_delete_def Let_def split: prod.splits)

lemma delete_file_step:
  assumes "ev_len ev \<noteq> 0" and "ev_mask ev AND IN_CREATE = 0" and "ev_mask ev AND IN_DELETE \<noteq> 0"
    and "ev_mask ev AND IN_ISDIR = 0" and "get (watch_v M) (ev_wd ev) = Some (d, W)"
  shows "\<exists>M'. process_event reply ev M = Some M'
           \<and> watch_v M' = W
           \<and> total_dir_events M' = total_dir_events M
           \<and> total_file_events M' = total_file_events M - 1"
  using assms by (simp add: process_event_named on_delete_def Let_def)






section \<open>Scenario: a directory is deleted with a file in it\<close>

text \<open>
  C7. From the state on entry to the loop, with counters at zero, the events
  create directory \<open>x\<close> in the root, create file \<open>f.txt\<close> in \<open>x\<close>, delete directory \<open>x\<close>
  in the root leave the directory counter at 0 and the file counter at 1, whatever
  descriptor \<open>r\<close> the root has and whatever other descriptor \<open>w\<close> the new directory gets.
\<close>

theorem cascade_delete_scenario:
  assumes "w \<noteq> r"
  shows "\<exists>M. main_loop
           [Events [(w, \<lparr>ev_wd = r, ev_mask = IN_CREATE OR IN_ISDIR, ev_len = 16, ev_name = ''x''\<rparr>),
                    (a, \<lparr>ev_wd = w, ev_mask = IN_CREATE, ev_len = 16, ev_name = ''f.txt''\<rparr>),
                    (b, \<lparr>ev_wd = r, ev_mask = IN_DELETE OR IN_ISDIR, ev_len = 16, ev_name = ''x''\<rparr>)],
            Run_false] (startup r) = Some (Left_loop M)
         \<and> total_dir_events M = 0 \<and> total_file_events M = 1"
proof -
  let ?e1 = "\<lparr>ev_wd = r, ev_mask = IN_CREATE OR IN_ISDIR, ev_len = 16, ev_name = ''x''\<rparr>"
  let ?e2 = "\<lparr>ev_wd = w, ev_mask = IN_CREATE, ev_len = 16, ev_name = ''f.txt''\<rparr>"
  let ?e3 = "\<lparr>ev_wd = r, ev_mask = IN_DELETE OR IN_ISDIR, ev_len = 16, ev_name = ''x''\<rparr>"
  define W1 where "W1 = insert_wd empty_Watch (- 1) ''./tmp'' r"
  define W2 where "W2 = insert_wd W1 r ''x'' w"
  have s0: "watch_v (startup r) = W1" "total_dir_events (startup r) = 0"
    "total_file_events (startup r) = 0"
    by (simp_all add: startup_def W1_def Let_def)
  have "live W1 (- 1) ''./tmp'' r" unfolding W1_def by (rule live_insert)
  then have g1: "get W1 r = Some (''./tmp'', W1)" by (rule live_get_root)
  from create_dir_step [of ?e1 "startup r" "''./tmp''" W1 w] g1 s0
  obtain M1 where M1: "process_event w ?e1 (startup r) = Some M1" "watch_v M1 = W2"
    "total_dir_events M1 = 1" "total_file_events M1 = 0"
    by (auto simp: flags W2_def)
  have lx: "live W2 r ''x'' w" unfolding W2_def by (rule live_insert)
  have "live W2 (- 1) ''./tmp'' r" using assms by (simp add: live_def W2_def W1_def reg_defs)
  then have g2r: "get W2 r = Some (''./tmp'', W2)" by (rule live_get_root)
  have "\<exists>d. get W2 w = Some (d, W2)"
  proof (cases "r = - 1")
    case True
    with lx live_get_root [of W2 "''x''" w] show ?thesis by auto
  next
    case False
    with live_get_child [OF lx _ g2r] show ?thesis by blast
  qed
  then obtain d where g2: "get W2 w = Some (d, W2)" by blast
  from create_file_step [of ?e2 M1 d W2 a] g2 M1
  obtain M2 where M2: "process_event a ?e2 M1 = Some M2" "watch_v M2 = W2"
    "total_dir_events M2 = 1" "total_file_events M2 = 1"
    by (auto simp: flags)
  from delete_dir_step [of ?e3 b M2] M2
  obtain M3 where M3: "process_event b ?e3 M2 = Some M3"
    "total_dir_events M3 = 0" "total_file_events M3 = 1"
    by (auto simp: flags)
  from M1(1) M2(1) M3(1)
  have "main_loop [Events [(w, ?e1), (a, ?e2), (b, ?e3)], Run_false] (startup r) = Some (Left_loop M3)"
    by simp
  with M3(2,3) show ?thesis by blast
qed

theorem cascade_delete_scenario_witness:
  "(2::int) \<noteq> 1
   \<and> (\<exists>M. main_loop
           [Events [(2, \<lparr>ev_wd = 1, ev_mask = IN_CREATE OR IN_ISDIR, ev_len = 16, ev_name = ''x''\<rparr>),
                    (0, \<lparr>ev_wd = 2, ev_mask = IN_CREATE, ev_len = 16, ev_name = ''f.txt''\<rparr>),
                    (0, \<lparr>ev_wd = 1, ev_mask = IN_DELETE OR IN_ISDIR, ev_len = 16, ev_name = ''x''\<rparr>)],
            Run_false] (startup 1) = Some (Left_loop M)
         \<and> total_dir_events M = 0 \<and> total_file_events M = 1)"
proof -
  have h: "(2::int) \<noteq> 1" by simp
  from cascade_delete_scenario [OF h, of 0 0] h show ?thesis by blast
qed

section \<open>What ends the loop\<close>





section \<open>What \<open>erase\<close> returns for display\<close>

text \<open>
  C2. The comment on \<open>erase\<close> promises the full name, but the function returns
  \<open>elem.name\<close> alone. For directory \<open>x\<close> in the root \<open>./tmp\<close>, registered under
  descriptor 2, \<open>erase\<close> returns the descriptor 2 and the bare name \<open>x\<close>, where \<open>get (2)\<close>
  gives \<open>./tmp/x\<close>; the loop therefore reports the creation of \<open>./tmp/x\<close> and the deletion
  of \<open>x\<close>.
\<close>

theorem erase_returns_bare_name:
  "erase (insert_wd (insert_wd empty_Watch (- 1) ''./tmp'' 1) 1 ''x'' 2) 1 ''x''
     = (''x'', 2, insert_wd empty_Watch (- 1) ''./tmp'' 1)
   \<and> get (insert_wd (insert_wd empty_Watch (- 1) ''./tmp'' 1) 1 ''x'' 2) 2
     = Some (''./tmp/x'', insert_wd (insert_wd empty_Watch (- 1) ''./tmp'' 1) 1 ''x'' 2)
   \<and> map_option out
        (process_events
           [(2, \<lparr>ev_wd = 1, ev_mask = IN_CREATE OR IN_ISDIR, ev_len = 16, ev_name = ''x''\<rparr>),
            (0, \<lparr>ev_wd = 1, ev_mask = IN_DELETE OR IN_ISDIR, ev_len = 16, ev_name = ''x''\<rparr>)]
           (startup 1))
     = Some [Add_watch ''./tmp'', Add_watch ''./tmp/x'', Printf ''New directory ./tmp/x created.'',
             Rm_watch 2, Printf ''Directory x deleted.'']"
proof -
  let ?W1 = "insert_wd empty_Watch (- 1) ''./tmp'' 1"
  let ?W2 = "insert_wd ?W1 1 ''x'' 2"
  let ?e1 = "\<lparr>ev_wd = 1, ev_mask = IN_CREATE OR IN_ISDIR, ev_len = 16, ev_name = ''x''\<rparr>"
  let ?e2 = "\<lparr>ev_wd = 1, ev_mask = IN_DELETE OR IN_ISDIR, ev_len = 16, ev_name = ''x''\<rparr>"
  have a: "erase ?W2 1 ''x'' = (''x'', 2, ?W1)"
    by (simp add: erase_def rwatch_at_def watch_at_def reg_defs)
  have "live ?W2 (- 1) ''./tmp'' 1" by (simp add: live_def reg_defs)
  then have g1: "get ?W2 1 = Some (''./tmp'', ?W2)" by (rule live_get_root)
  have "live ?W2 1 ''x'' 2" by (rule live_insert)
  from live_get_child [OF this _ g1] have b: "get ?W2 2 = Some (''./tmp/x'', ?W2)" by simp
  have "live ?W1 (- 1) ''./tmp'' 1" by (rule live_insert)
  then have g0: "get ?W1 1 = Some (''./tmp'', ?W1)" by (rule live_get_root)
  have w0: "watch_v (startup 1) = ?W1" by (simp add: startup_def Let_def)
  have s1: "process_event 2 ?e1 (startup 1) =
      Some ((startup 1)\<lparr>watch_v := ?W2, current_dir := ''./tmp'', new_dir := ''./tmp/x'',
              total_dir_events := 1, wd := 2,
              out := [Add_watch ''./tmp'', Add_watch ''./tmp/x'',
                      Printf ''New directory ./tmp/x created.'']\<rparr>)"
    by (simp add: process_event_named announced_def on_create_def flags w0 g0 Let_def emit_def)
       (simp add: startup_def Let_def)
  show ?thesis
    apply (intro conjI)
      apply (rule a)
     apply (rule b)
    apply (simp add: s1)
    apply (simp add: process_event_named announced_def on_delete_def flags a Let_def emit_def)
    done
qed


end
